theory Spec2Isabelle
  imports Main "HOL-Library.Product_Lexorder" "HOL-Library.Multiset"
begin

section \<open>The Instagram search handler of \<^verbatim>\<open>src/pages/api/instagramSearch.js\<close>\<close>

text \<open>
  The file exports one asynchronous request handler. It validates the query string, looks the
  lowercased query up in a process-wide cache object, calls the external scraper on a miss,
  reorders the dataset, cuts the requested page out of it and maps the records to the
  response shape. The model follows the blocks of the handler in the order of the source.

  Conventions of the model:
  \<^item> a field of a record of the dataset is a string or \<^verbatim>\<open>undefined\<close>: a \<open>string option\<close>,
    truthy when it is defined and not the empty string;
  \<^item> a field of \<^verbatim>\<open>req.query\<close> is \<^verbatim>\<open>undefined\<close>, a string, or an array of strings when the
    parameter is given more than once;
  \<^item> strings are lists of code units below 256, read as Latin-1 code points;
  \<^item> a number is \<^verbatim>\<open>NaN\<close>, an infinity, or a finite double with an integer value; the
    results of \<^verbatim>\<open>parseInt\<close>, \<^verbatim>\<open>*\<close>, \<^verbatim>\<open>+\<close> and \<^verbatim>\<open>-\<close> are rounded to the nearest double,
    ties to even, and negative zero is not told from zero (the handler only compares it);
  \<^item> a number inside a template literal is kept as a number: its rendering as text is
    not part of the model;
  \<^item> the cache object is a map together with the properties it inherits from
    \<^verbatim>\<open>Object.prototype\<close>;
  \<^item> the external scraper is a function from its input to what the two awaited calls
    produce, and every call of it is appended to a log in the state.
\<close>

subsection \<open>Strings\<close>

definition toLowerCase_char :: "char \<Rightarrow> char" where
  "toLowerCase_char c =
     (let n = (of_char c :: nat)
      in if (65 \<le> n \<and> n \<le> 90) \<or> (192 \<le> n \<and> n \<le> 222 \<and> n \<noteq> 215)
         then char_of (n + 32) else c)"

definition toLowerCase :: "string \<Rightarrow> string" where
  "toLowerCase s = map toLowerCase_char s"

fun startsWith :: "string \<Rightarrow> string \<Rightarrow> bool" where
  "startsWith s [] = True"
| "startsWith [] (c # cs) = False"
| "startsWith (x # xs) (c # cs) = (x = c \<and> startsWith xs cs)"

fun includes_str :: "string \<Rightarrow> string \<Rightarrow> bool" where
  "includes_str [] t = (t = [])"
| "includes_str (x # xs) t = (startsWith (x # xs) t \<or> includes_str xs t)"

text \<open>\<^verbatim>\<open>a || b\<close> on values that are strings or undefined.\<close>

definition truthy :: "string option \<Rightarrow> bool" where
  "truthy v = (case v of None \<Rightarrow> False | Some s \<Rightarrow> s \<noteq> [])"

definition or_js :: "string option \<Rightarrow> string option \<Rightarrow> string option" where
  "or_js a b = (if truthy a then a else b)"

definition or_str :: "string option \<Rightarrow> string \<Rightarrow> string" where
  "or_str a d = (case a of None \<Rightarrow> d | Some s \<Rightarrow> if s \<noteq> [] then s else d)"

subsection \<open>Numbers\<close>

datatype number = NaN | Finite int | PosInfinity | NegInfinity

text \<open>
  The distance between neighbouring doubles at a magnitude of \<open>2^52\<close> or more: 1 below
  \<open>2^53\<close>, and twice as much with every further binary digit.
\<close>

function ulp :: "int \<Rightarrow> int" where
  "ulp a = (if a < 9007199254740992 then 1 else 2 * ulp (a div 2))"
  by pat_completeness auto
termination
  by (relation "measure nat") auto

declare ulp.simps [simp del]

text \<open>
  The double nearest to an integer. Below \<open>2^53 = 9007199254740992\<close> every integer is a
  double. Above, the integer is rounded to a multiple of the distance between doubles at
  its magnitude, ties to the even multiple; a result of \<open>2^1024\<close> or more is an infinity.
\<close>

definition to_number :: "int \<Rightarrow> number" where
  "to_number n =
     (let a = \<bar>n\<bar>
      in if a < 9007199254740992 then Finite n
         else
           (let u = ulp a;
                q = a div u;
                r = a mod u;
                q' = (if u < 2 * r \<or> (2 * r = u \<and> odd q) then q + 1 else q);
                m = q' * u
            in if 2 ^ 1024 \<le> m then (if n < 0 then NegInfinity else PosInfinity)
               else Finite (if n < 0 then - m else m)))"

text \<open>\<^verbatim>\<open>a < b\<close>, \<^verbatim>\<open>a * b\<close>, \<^verbatim>\<open>a + b\<close> and \<^verbatim>\<open>a - b\<close> on numbers.\<close>

fun less_js :: "number \<Rightarrow> number \<Rightarrow> bool" where
  "less_js (Finite x) (Finite y) = (x < y)"
| "less_js (Finite x) PosInfinity = True"
| "less_js NegInfinity (Finite y) = True"
| "less_js NegInfinity PosInfinity = True"
| "less_js a b = False"

definition negative :: "number \<Rightarrow> bool" where
  "negative a = (case a of Finite x \<Rightarrow> x < 0 | NegInfinity \<Rightarrow> True | _ \<Rightarrow> False)"

definition mul_js :: "number \<Rightarrow> number \<Rightarrow> number" where
  "mul_js a b =
     (case (a, b) of
        (Finite x, Finite y) \<Rightarrow> to_number (x * y)
      | _ \<Rightarrow>
          if a = NaN \<or> b = NaN \<or> a = Finite 0 \<or> b = Finite 0 then NaN
          else if negative a = negative b then PosInfinity
          else NegInfinity)"

definition add_js :: "number \<Rightarrow> number \<Rightarrow> number" where
  "add_js a b =
     (case (a, b) of
        (Finite x, Finite y) \<Rightarrow> to_number (x + y)
      | _ \<Rightarrow>
          if a = NaN \<or> b = NaN then NaN
          else if (a = PosInfinity \<and> b = NegInfinity) \<or> (a = NegInfinity \<and> b = PosInfinity)
          then NaN
          else if a = PosInfinity \<or> b = PosInfinity then PosInfinity
          else NegInfinity)"

definition neg_js :: "number \<Rightarrow> number" where
  "neg_js a =
     (case a of
        NaN \<Rightarrow> NaN
      | Finite x \<Rightarrow> Finite (- x)
      | PosInfinity \<Rightarrow> NegInfinity
      | NegInfinity \<Rightarrow> PosInfinity)"

definition sub_js :: "number \<Rightarrow> number \<Rightarrow> number" where
  "sub_js a b = add_js a (neg_js b)"

subsection \<open>\<^verbatim>\<open>parseInt(s, 10)\<close>\<close>

definition isWhiteSpace :: "char \<Rightarrow> bool" where
  "isWhiteSpace c = ((of_char c :: nat) \<in> {9, 10, 11, 12, 13, 32, 160})"

definition isDigit :: "char \<Rightarrow> bool" where
  "isDigit c = (48 \<le> (of_char c :: nat) \<and> (of_char c :: nat) \<le> 57)"

definition digits_value :: "string \<Rightarrow> int" where
  "digits_value ds = foldl (\<lambda>acc c. 10 * acc + (int (of_char c) - 48)) 0 ds"

text \<open>
  White space is skipped, a sign is read, and the longest run of decimal digits that
  follows is the value; without a digit the result is \<^verbatim>\<open>NaN\<close>. The value of the whole run
  of digits is rounded to the nearest double, or to an infinity when it is too large, as
  \<open>10^309\<close> is.
\<close>

definition parseInt :: "string \<Rightarrow> number" where
  "parseInt s =
     (let t = dropWhile isWhiteSpace s;
          (minus, u) = (case t of
                          c # cs \<Rightarrow> if c = CHR ''-'' then (True, cs)
                                    else if c = CHR ''+'' then (False, cs) else (False, t)
                        | [] \<Rightarrow> (False, t));
          ds = takeWhile isDigit u
      in if ds = [] then NaN
         else to_number (if minus then - digits_value ds else digits_value ds))"

subsection \<open>Data\<close>

text \<open>An item of the scraper's dataset; only the fields the handler reads.\<close>

record raw_record =
  item_id :: "string option"
  username :: "string option"
  bio :: "string option"
  profilePicUrlHD :: "string option"
  profilePicUrl :: "string option"

record profile =
  p_id :: "string option"
  p_username :: "string option"
  p_bio :: string
  profilePicture :: string

record page_response =
  profiles :: "profile list"
  total_n :: nat
  currentPage :: number
  totalPages :: number

text \<open>The text of an error: literal pieces and the numbers a template literal inserts.\<close>

datatype part = Lit string | Num number

datatype body = ErrorBody "part list" | PageBody page_response

record response =
  status :: nat
  body :: body

text \<open>
  A field of \<^verbatim>\<open>req.query\<close>: not given, given once, or given more than once (an array).
\<close>

datatype param = Absent | Single string | Repeated "string list"

text \<open>\<^verbatim>\<open>req.method\<close> and the four fields read from \<^verbatim>\<open>req.query\<close>.\<close>

record request =
  req_method :: string
  req_query :: param
  req_platform :: param
  req_page :: param
  req_limit :: param

text \<open>
  What the scraper does when it is called: the actor call rejects, or resolves to a run
  without a dataset id, or the listing rejects, or the listing resolves to items (\<open>None\<close>
  when the field is undefined). A rejection carries the \<^verbatim>\<open>message\<close> of the error, if any.
\<close>

datatype fetch_outcome =
    ActorCallFails "string option"
  | RunWithoutDataset
  | ListItemsFails "string option"
  | ListItems "raw_record list option"

type_synonym fetcher = "string \<Rightarrow> number \<Rightarrow> fetch_outcome"

record state =
  fullSearchCache :: "string \<rightharpoonup> raw_record list"
  fetch_calls :: "(string \<times> number) list"

datatype completion = Return response | Throw "string option"

definition MAX_PAGES :: number where
  "MAX_PAGES = Finite 7"

subsection \<open>Validation block\<close>

definition error_response :: "nat \<Rightarrow> part list \<Rightarrow> response" where
  "error_response code msg = \<lparr>status = code, body = ErrorBody msg\<rparr>"

text \<open>An array is truthy, also an empty one.\<close>

definition param_truthy :: "param \<Rightarrow> bool" where
  "param_truthy p = (case p of Absent \<Rightarrow> False | Single s \<Rightarrow> s \<noteq> [] | Repeated xs \<Rightarrow> True)"

text \<open>\<^verbatim>\<open>parseInt\<close> converts its argument to a string: an array is joined with commas.\<close>

fun join_comma :: "string list \<Rightarrow> string" where
  "join_comma [] = []"
| "join_comma [x] = x"
| "join_comma (x # y # ys) = x @ CHR '','' # join_comma (y # ys)"

text \<open>The defaults of the destructuring \<^verbatim>\<open>{ query, platform, page = 1, limit = 5 }\<close>.\<close>

definition page_param :: "request \<Rightarrow> string" where
  "page_param req =
     (case req_page req of Absent \<Rightarrow> ''1'' | Single p \<Rightarrow> p | Repeated ps \<Rightarrow> join_comma ps)"

definition limit_param :: "request \<Rightarrow> string" where
  "limit_param req =
     (case req_limit req of Absent \<Rightarrow> ''5'' | Single l \<Rightarrow> l | Repeated ls \<Rightarrow> join_comma ls)"

text \<open>The part of the block from \<^verbatim>\<open>// Parse page and limit\<close> on.\<close>

definition parse_page_limit :: "request \<Rightarrow> completion + (number \<times> number)" where
  "parse_page_limit req =
     (let pageInt = parseInt (page_param req);
          limitInt = parseInt (limit_param req)
      in if pageInt = NaN \<or> less_js pageInt (Finite 1) then
           Inl (Return (error_response 400
             [Lit (''Invalid '' @ CHR 0x22 # ''page'' @ CHR 0x22 #
                   '' parameter. Must be a positive integer.'')]))
         else if limitInt = NaN \<or> less_js limitInt (Finite 1) then
           Inl (Return (error_response 400
             [Lit (''Invalid '' @ CHR 0x22 # ''limit'' @ CHR 0x22 #
                   '' parameter. Must be a positive integer.'')]))
         else if less_js MAX_PAGES pageInt then
           Inl (Return (error_response 400
             [Lit ''Page '', Num pageInt, Lit '' exceeds the maximum of '',
              Num MAX_PAGES, Lit '' pages.'']))
         else Inr (pageInt, limitInt))"

text \<open>
  Either a completion (an early response, or the \<^verbatim>\<open>TypeError\<close> of calling
  \<^verbatim>\<open>toLowerCase\<close> on an array), or the query with the parsed page and limit.
\<close>

definition validate :: "request \<Rightarrow> completion + (param \<times> number \<times> number)" where
  "validate req =
     (let query = req_query req
      in if \<not> param_truthy query \<or> query = Single ''*'' then
           Inl (Return (error_response 400
             [Lit ''Invalid query parameter. Provide a search term.'']))
         else
           (case req_platform req of
              Repeated ps \<Rightarrow> Inl (Throw (Some ''platform.toLowerCase is not a function''))
            | Single platform \<Rightarrow>
                if platform \<noteq> [] \<and> toLowerCase platform \<noteq> ''instagram'' then
                  Inl (Return (error_response 400
                    [Lit ''Please select the correct platform. Only Instagram is supported.'']))
                else map_sum id (\<lambda>(pageInt, limitInt). (query, pageInt, limitInt))
                       (parse_page_limit req)
            | Absent \<Rightarrow>
                map_sum id (\<lambda>(pageInt, limitInt). (query, pageInt, limitInt))
                  (parse_page_limit req)))"

subsection \<open>Cache lookup and fetch\<close>

text \<open>
  \<^verbatim>\<open>fullSearchCache[cacheKey]\<close> on an object literal: an own property if the key was
  stored, else what \<^verbatim>\<open>Object.prototype\<close> provides. Of its property names only
  \<^verbatim>\<open>constructor\<close> and \<^verbatim>\<open>__proto__\<close> are left unchanged by lowercasing; both values are
  truthy and neither is an array.
\<close>

datatype cache_value = Undefined | Inherited | Own "raw_record list"

definition cache_get :: "(string \<rightharpoonup> raw_record list) \<Rightarrow> string \<Rightarrow> cache_value" where
  "cache_get c k =
     (case c k of
        Some d \<Rightarrow> Own d
      | None \<Rightarrow> if k = ''constructor'' \<or> k = ''__proto__'' then Inherited else Undefined)"

definition load_fullData ::
  "fetcher \<Rightarrow> string \<Rightarrow> number \<Rightarrow> state \<Rightarrow> (raw_record list + completion) \<times> state" where
  "load_fullData fetch query limitInt s =
     (let cacheKey = toLowerCase query
      in case cache_get (fullSearchCache s) cacheKey of
           Own d \<Rightarrow> (Inl d, s)
         | Inherited \<Rightarrow> (Inr (Throw (Some ''fullData.findIndex is not a function'')), s)
         | Undefined \<Rightarrow>
             (let totalFetchLimit = mul_js MAX_PAGES limitInt;
                  s1 = s\<lparr>fetch_calls := fetch_calls s @ [(query, totalFetchLimit)]\<rparr>
              in case fetch query totalFetchLimit of
                   ActorCallFails m \<Rightarrow> (Inr (Throw m), s1)
                 | RunWithoutDataset \<Rightarrow>
                     (Inr (Return (error_response 502
                        [Lit ''Apify actor did not return a valid dataset. Possibly a scraping failure.''])), s1)
                 | ListItemsFails m \<Rightarrow> (Inr (Throw m), s1)
                 | ListItems items \<Rightarrow>
                     (case items of
                        None \<Rightarrow>
                          (Inr (Return (error_response 404 [Lit ''No related profiles found.''])), s1)
                      | Some [] \<Rightarrow>
                          (Inr (Return (error_response 404 [Lit ''No related profiles found.''])), s1)
                      | Some (x # xs) \<Rightarrow>
                          (Inl (x # xs),
                           s1\<lparr>fullSearchCache := (fullSearchCache s1)(cacheKey \<mapsto> x # xs)\<rparr>))))"

subsection \<open>Ranking block\<close>

definition lowerUser :: "raw_record \<Rightarrow> string" where
  "lowerUser item = toLowerCase (or_str (username item) [])"

text \<open>The comparator passed to both \<^verbatim>\<open>sort\<close> calls.\<close>

definition compareProfiles :: "string \<Rightarrow> raw_record \<Rightarrow> raw_record \<Rightarrow> int" where
  "compareProfiles q a b =
     (let aUser = lowerUser a; bUser = lowerUser b;
          aStarts = startsWith aUser q; bStarts = startsWith bUser q
      in if aStarts \<and> \<not> bStarts then - 1
         else if \<not> aStarts \<and> bStarts then 1
         else int (length aUser) - int (length bUser))"

text \<open>
  \<^verbatim>\<open>Array.prototype.sort\<close> is stable; for a consistent comparator its result is the one
  stable sorted arrangement, computed here by insertion from the right.
\<close>

fun insert_sorted :: "('a \<Rightarrow> 'a \<Rightarrow> int) \<Rightarrow> 'a \<Rightarrow> 'a list \<Rightarrow> 'a list" where
  "insert_sorted cmp x [] = [x]"
| "insert_sorted cmp x (y # ys) =
     (if cmp x y \<le> 0 then x # y # ys else y # insert_sorted cmp x ys)"

definition sort_js :: "('a \<Rightarrow> 'a \<Rightarrow> int) \<Rightarrow> 'a list \<Rightarrow> 'a list" where
  "sort_js cmp xs = foldr (insert_sorted cmp) xs []"

fun findIndex :: "('a \<Rightarrow> bool) \<Rightarrow> 'a list \<Rightarrow> int" where
  "findIndex p [] = - 1"
| "findIndex p (x # xs) =
     (if p x then 0 else (let i = findIndex p xs in if i = - 1 then - 1 else i + 1))"

text \<open>
  The reordering of \<^verbatim>\<open>fullData\<close>. When \<^verbatim>\<open>findIndex\<close> finds a match, \<^verbatim>\<open>exactMatches\<close>
  is not empty, so \<^verbatim>\<open>exactMatches[0]\<close> is a record (lemma \<open>exactMatches_nonempty\<close>).
\<close>

definition rank :: "raw_record list \<Rightarrow> string \<Rightarrow> raw_record list" where
  "rank fullData query =
     (let q = toLowerCase query;
          exactMatchIndex = findIndex (\<lambda>item. lowerUser item = q) fullData
      in if exactMatchIndex \<noteq> - 1 then
           (let exactMatches = filter (\<lambda>item. lowerUser item = q) fullData;
                remainingProfiles = filter (\<lambda>item. lowerUser item \<noteq> q) fullData
            in (case exactMatches of
                  e # _ \<Rightarrow> e # sort_js (compareProfiles q) remainingProfiles
                | [] \<Rightarrow> sort_js (compareProfiles q) remainingProfiles))
         else sort_js (compareProfiles q) fullData)"

subsection \<open>Pagination block and response mapping\<close>

text \<open>
  \<^verbatim>\<open>Array.prototype.slice(start, end)\<close>: an argument becomes an index between 0 and the
  length; \<^verbatim>\<open>NaN\<close> counts as 0 and a negative argument counts from the end.
\<close>

definition slice_index :: "nat \<Rightarrow> number \<Rightarrow> nat" where
  "slice_index len r =
     (case r of
        NaN \<Rightarrow> 0
      | NegInfinity \<Rightarrow> 0
      | PosInfinity \<Rightarrow> len
      | Finite i \<Rightarrow> if i < 0 then nat (max (int len + i) 0) else nat (min i (int len)))"

definition slice :: "'a list \<Rightarrow> number \<Rightarrow> number \<Rightarrow> 'a list" where
  "slice xs start end =
     (let k = slice_index (length xs) start;
          final = slice_index (length xs) end
      in take (final - k) (drop k xs))"

definition paginate :: "'a list \<Rightarrow> number \<Rightarrow> number \<Rightarrow> 'a list" where
  "paginate orderedData pageInt limitInt =
     (let startIndex = mul_js (sub_js pageInt (Finite 1)) limitInt;
          endIndex = add_js startIndex limitInt
      in slice orderedData startIndex endIndex)"

definition toProfile :: "raw_record \<Rightarrow> profile" where
  "toProfile item =
     \<lparr>p_id = or_js (item_id item) (username item),
      p_username = username item,
      p_bio = or_str (bio item) [],
      profilePicture =
        or_str (or_js (profilePicUrlHD item) (profilePicUrl item)) ''/no-profile-pic-img.png''\<rparr>"

definition respond :: "raw_record list \<Rightarrow> string \<Rightarrow> number \<Rightarrow> number \<Rightarrow> response" where
  "respond fullData query pageInt limitInt =
     (let orderedData = rank fullData query;
          paginatedItems = paginate orderedData pageInt limitInt
      in if paginatedItems = [] then
           error_response 404
             [Lit ''No related profiles found for page '', Num pageInt, Lit ''.'']
         else
           \<lparr>status = 200,
            body = PageBody
              \<lparr>profiles = map toProfile paginatedItems,
               total_n = length fullData,
               currentPage = pageInt,
               totalPages = MAX_PAGES\<rparr>\<rparr>)"

subsection \<open>The handler\<close>

text \<open>
  After validation the query is truthy: a string, or an array, on which
  \<^verbatim>\<open>query.toLowerCase()\<close> is a \<^verbatim>\<open>TypeError\<close>.
\<close>

definition try_block :: "fetcher \<Rightarrow> request \<Rightarrow> state \<Rightarrow> completion \<times> state" where
  "try_block fetch req s =
     (case validate req of
        Inl c \<Rightarrow> (c, s)
      | Inr (query, pageInt, limitInt) \<Rightarrow>
          (case query of
             Single q \<Rightarrow>
               (case load_fullData fetch q limitInt s of
                  (Inr c, s') \<Rightarrow> (c, s')
                | (Inl fullData, s') \<Rightarrow>
                    (Return (respond fullData q pageInt limitInt), s'))
           | Repeated qs \<Rightarrow> (Throw (Some ''query.toLowerCase is not a function''), s)
           | Absent \<Rightarrow>
               (Throw (Some (''Cannot read properties of undefined (reading '' @
                  CHR 0x27 # ''toLowerCase'' @ CHR 0x27 # '')'')), s)))"

text \<open>\<^verbatim>\<open>error.message?.includes(t)\<close>: false when the error has no message.\<close>

definition message_includes :: "string option \<Rightarrow> string \<Rightarrow> bool" where
  "message_includes message t = (case message of None \<Rightarrow> False | Some m \<Rightarrow> includes_str m t)"

definition catch_block :: "string option \<Rightarrow> response" where
  "catch_block message =
     (if message_includes message ''TIMEOUT'' then
        error_response 504 [Lit ''Scraper timed out. Please try again later.'']
      else if message_includes message ''invalid token'' then
        error_response 401 [Lit ''Invalid Apify token.'']
      else
        error_response 500
          [Lit (''Internal Server Error. '' @ or_str message ''Unknown error'')])"

definition handler :: "fetcher \<Rightarrow> request \<Rightarrow> state \<Rightarrow> response \<times> state" where
  "handler fetch req s =
     (if req_method req \<noteq> ''GET'' then
        (error_response 405 [Lit ''Method Not Allowed. Only GET is supported.''], s)
      else
        (case try_block fetch req s of
           (Return resp, s') \<Rightarrow> (resp, s')
         | (Throw message, s') \<Rightarrow> (catch_block message, s')))"

text \<open>
  A sequence of requests, each with the behaviour of the scraper at that moment. The
  requests are handled one after the other: a request is finished before the next one
  starts.
\<close>

fun serve :: "(fetcher \<times> request) list \<Rightarrow> state \<Rightarrow> response list \<times> state" where
  "serve [] s = ([], s)"
| "serve ((fetch, req) # rest) s =
     (let (resp, s') = handler fetch req s;
          (resps, s'') = serve rest s'
      in (resp # resps, s''))"

definition initial_state :: state where
  "initial_state = \<lparr>fullSearchCache = Map.empty, fetch_calls = []\<rparr>"

subsection \<open>The ranking block on arrays held by reference\<close>

text \<open>
  \<^verbatim>\<open>sort\<close> works in place and \<^verbatim>\<open>filter\<close>, the spread and the array literal allocate.
  To see which array each call writes to, the block is modelled a second time over a store
  of arrays: \<open>fullData\<close> is a reference, and the result is the reference of
  \<^verbatim>\<open>orderedData\<close> with the store after the block. \<open>None\<close> stands for the
  \<^verbatim>\<open>TypeError\<close> of reading from something that is not an array.
\<close>

record heap =
  arrays :: "nat \<rightharpoonup> raw_record list"
  next_ref :: nat

definition new_array :: "raw_record list \<Rightarrow> heap \<Rightarrow> nat \<times> heap" where
  "new_array xs h =
     (next_ref h, h\<lparr>arrays := (arrays h)(next_ref h \<mapsto> xs), next_ref := Suc (next_ref h)\<rparr>)"

definition sort_in_place ::
  "(raw_record \<Rightarrow> raw_record \<Rightarrow> int) \<Rightarrow> nat \<Rightarrow> heap \<Rightarrow> heap" where
  "sort_in_place cmp r h =
     (case arrays h r of
        Some xs \<Rightarrow> h\<lparr>arrays := (arrays h)(r \<mapsto> sort_js cmp xs)\<rparr>
      | None \<Rightarrow> h)"

definition rank_refs :: "nat \<Rightarrow> string \<Rightarrow> heap \<Rightarrow> (nat \<times> heap) option" where
  "rank_refs fullData query h =
     (case arrays h fullData of
        None \<Rightarrow> None
      | Some items \<Rightarrow>
          (let q = toLowerCase query;
               exactMatchIndex = findIndex (\<lambda>item. lowerUser item = q) items
           in if exactMatchIndex \<noteq> - 1 then
                (let (exactMatches, h1) =
                       new_array (filter (\<lambda>item. lowerUser item = q) items) h;
                     (remainingProfiles, h2) =
                       new_array (filter (\<lambda>item. lowerUser item \<noteq> q) items) h1;
                     h3 = sort_in_place (compareProfiles q) remainingProfiles h2
                 in case (arrays h3 exactMatches, arrays h3 remainingProfiles) of
                      (Some (e # _), Some rs) \<Rightarrow> Some (new_array (e # rs) h3)
                    | _ \<Rightarrow> None)
              else
                (let (orderedData, h1) = new_array items h;
                     h2 = sort_in_place (compareProfiles q) orderedData h1
                 in Some (orderedData, h2))))"

subsection \<open>Auxiliary notions for the statements\<close>

text \<open>
  The comparator orders records by the pair "does not start with the query", "length of the
  lowercased username", compared lexicographically.
\<close>

definition rank_key :: "string \<Rightarrow> raw_record \<Rightarrow> bool \<times> nat" where
  "rank_key q item = (\<not> startsWith (lowerUser item) q, length (lowerUser item))"

text \<open>
  The normalized username as the specification words it: the username in lowercase, a
  missing username counting as the empty string.
\<close>

definition normalized_username :: "raw_record \<Rightarrow> string" where
  "normalized_username item = toLowerCase (case username item of None \<Rightarrow> [] | Some u \<Rightarrow> u)"

text \<open>Records for the examples: only an id and a username are present.\<close>

definition user :: "string \<Rightarrow> raw_record" where
  "user u =
     \<lparr>item_id = None, username = Some u, bio = None,
      profilePicUrlHD = None, profilePicUrl = None\<rparr>"

definition user_with_id :: "string \<Rightarrow> string \<Rightarrow> raw_record" where
  "user_with_id i u =
     \<lparr>item_id = Some i, username = Some u, bio = None,
      profilePicUrlHD = None, profilePicUrl = None\<rparr>"

definition anonymous :: "string \<Rightarrow> raw_record" where
  "anonymous i =
     \<lparr>item_id = Some i, username = None, bio = None,
      profilePicUrlHD = None, profilePicUrl = None\<rparr>"

text \<open>A decimal numeral of 310 digits: its value is too large for a finite double.\<close>

definition huge_limit :: string where
  "huge_limit = CHR ''1'' # replicate 309 CHR ''0''"

definition get_request :: "string \<Rightarrow> param \<Rightarrow> param \<Rightarrow> request" where
  "get_request q p l =
     \<lparr>req_method = ''GET'', req_query = Single q, req_platform = Absent,
      req_page = p, req_limit = l\<rparr>"

section \<open>Properties\<close>

subsection \<open>The comparator and the sort\<close>

lemma compareProfiles_le: "compareProfiles q a b \<le> 0 \<longleftrightarrow> rank_key q a \<le> rank_key q b"
  by (auto simp: compareProfiles_def rank_key_def Let_def less_eq_prod_def)

lemma insert_sorted_insort:
  "insert_sorted (compareProfiles q) x ys = insort_key (rank_key q) x ys"
  by (induction ys) (simp_all add: compareProfiles_le)

lemma sort_js_sort_key: "sort_js (compareProfiles q) xs = sort_key (rank_key q) xs"
  by (induction xs) (simp_all add: sort_js_def insert_sorted_insort)

lemma sort_js_idem:
  "sort_js (compareProfiles q) (sort_js (compareProfiles q) xs) =
     sort_js (compareProfiles q) xs"
  by (simp add: sort_js_sort_key sort_key_id_if_sorted)

lemma sort_js_set: "set (sort_js (compareProfiles q) xs) = set xs"
  by (simp add: sort_js_sort_key)

lemma sort_js_mset: "mset (sort_js (compareProfiles q) xs) = mset xs"
  by (simp add: sort_js_sort_key)

lemma sort_js_stable:
  "filter (\<lambda>y. rank_key q y = k) (sort_js (compareProfiles q) xs) =
     filter (\<lambda>y. rank_key q y = k) xs"
  by (simp add: sort_js_sort_key sort_key_stable)

lemma sort_js_ordered:
  "sorted_wrt
     (\<lambda>a b. (startsWith (lowerUser b) q \<longrightarrow> startsWith (lowerUser a) q) \<and>
            (startsWith (lowerUser a) q = startsWith (lowerUser b) q \<longrightarrow>
               length (lowerUser a) \<le> length (lowerUser b)))
     (sort_js (compareProfiles q) xs)"
proof -
  have "sorted_wrt (\<lambda>a b. rank_key q a \<le> rank_key q b) (sort_js (compareProfiles q) xs)"
    using sorted_sort_key [of "rank_key q" xs]
    by (simp only: sort_js_sort_key sorted_map)
  then show ?thesis
    by (rule sorted_wrt_mono_rel [rotated]) (auto simp: rank_key_def less_eq_prod_def)
qed

subsection \<open>The ranking block\<close>

lemma findIndex_lower: "- 1 \<le> findIndex p xs"
  by (induction xs) (simp_all add: Let_def)

lemma findIndex_none: "findIndex p xs = - 1 \<longleftrightarrow> (\<forall>x \<in> set xs. \<not> p x)"
proof (induction xs)
  case Nil
  show ?case by simp
next
  case (Cons x xs)
  have "findIndex p xs + 1 \<noteq> - 1"
    using findIndex_lower [of p xs] by arith
  with Cons show ?case by (simp add: Let_def)
qed

lemma exactMatches_nonempty: "findIndex p xs \<noteq> - 1 \<Longrightarrow> filter p xs \<noteq> []"
  by (simp add: findIndex_none filter_empty_conv)

lemma first_match_find:
  "(\<forall>x \<in> set pre. \<not> p x) \<Longrightarrow> p e \<Longrightarrow> List.find p (pre @ e # post) = Some e"
  by (induction pre) simp_all

lemma find_filter: "List.find p xs = Some e \<Longrightarrow> \<exists>ys. filter p xs = e # ys"
  by (induction xs) (auto split: if_splits)

lemma find_member: "List.find p xs = Some e \<Longrightarrow> e \<in> set xs \<and> p e"
  by (induction xs) (auto split: if_splits)

lemma rank_exact:
  assumes "List.find (\<lambda>item. lowerUser item = toLowerCase query) fullData = Some e"
  shows "rank fullData query =
           e # sort_js (compareProfiles (toLowerCase query))
                 (filter (\<lambda>item. lowerUser item \<noteq> toLowerCase query) fullData)"
proof -
  from find_filter [OF assms] obtain ys
    where ys: "filter (\<lambda>item. lowerUser item = toLowerCase query) fullData = e # ys"
    by blast
  from find_member [OF assms]
  have "findIndex (\<lambda>item. lowerUser item = toLowerCase query) fullData \<noteq> - 1"
    by (auto simp: findIndex_none)
  with ys show ?thesis by (simp add: rank_def Let_def)
qed

lemma rank_no_exact:
  assumes "List.find (\<lambda>item. lowerUser item = toLowerCase query) fullData = None"
  shows "rank fullData query = sort_js (compareProfiles (toLowerCase query)) fullData"
proof -
  from assms have "findIndex (\<lambda>item. lowerUser item = toLowerCase query) fullData = - 1"
    by (simp add: findIndex_none find_None_iff)
  then show ?thesis by (simp add: rank_def Let_def)
qed

lemma rank_idem: "rank (rank fullData query) query = rank fullData query"
proof (cases "List.find (\<lambda>item. lowerUser item = toLowerCase query) fullData")
  case None
  let ?q = "toLowerCase query"
  have r: "rank fullData query = sort_js (compareProfiles ?q) fullData"
    by (rule rank_no_exact [OF None])
  have "List.find (\<lambda>item. lowerUser item = ?q) (sort_js (compareProfiles ?q) fullData) = None"
    using None by (simp add: find_None_iff sort_js_set)
  from rank_no_exact [OF this] show ?thesis by (simp add: r sort_js_idem)
next
  case (Some e)
  let ?q = "toLowerCase query"
  let ?S = "sort_js (compareProfiles ?q) (filter (\<lambda>item. lowerUser item \<noteq> ?q) fullData)"
  have r: "rank fullData query = e # ?S" by (rule rank_exact [OF Some])
  have e: "lowerUser e = ?q" using find_member [OF Some] by simp
  then have f: "List.find (\<lambda>item. lowerUser item = ?q) (e # ?S) = Some e" by simp
  have "filter (\<lambda>item. lowerUser item \<noteq> ?q) (e # ?S) = ?S"
    using e by (simp add: sort_js_set)
  with rank_exact [OF f] show ?thesis by (simp add: r sort_js_idem)
qed

lemma filter_partition_mset:
  "mset (filter p xs) + mset (filter (\<lambda>x. \<not> p x) xs) = mset xs"
  by (induction xs) simp_all

lemma rank_refs_correct:
  assumes a: "arrays h fullData = Some items" and b: "fullData < next_ref h"
  shows "\<exists>orderedData h'.
           rank_refs fullData query h = Some (orderedData, h') \<and>
           arrays h' orderedData = Some (rank items query) \<and>
           (\<forall>r < next_ref h. arrays h' r = arrays h r)"
proof (cases "findIndex (\<lambda>item. lowerUser item = toLowerCase query) items = - 1")
  case True
  with a show ?thesis
    by (simp add: rank_refs_def rank_def Let_def new_array_def sort_in_place_def)
next
  case False
  from exactMatches_nonempty [OF False] obtain e ys
    where "filter (\<lambda>item. lowerUser item = toLowerCase query) items = e # ys"
    by (cases "filter (\<lambda>item. lowerUser item = toLowerCase query) items") auto
  with a False show ?thesis
    by (simp add: rank_refs_def rank_def Let_def new_array_def sort_in_place_def)
qed

subsection \<open>Numbers and slices\<close>

lemma ulp_lower:
  "4503599627370496 \<le> a \<Longrightarrow> 0 < ulp a \<and> 4503599627370496 * ulp a \<le> a"
proof (induction a rule: ulp.induct)
  case (1 a)
  show ?case
  proof (cases "a < 9007199254740992")
    case True
    then have "ulp a = 1" by (subst ulp.simps) simp
    with "1.prems" show ?thesis by simp
  next
    case False
    then have h: "4503599627370496 \<le> a div 2" by simp
    from "1.IH" [OF False h]
    have ih: "0 < ulp (a div 2)" "4503599627370496 * ulp (a div 2) \<le> a div 2" by simp_all
    from False have u: "ulp a = 2 * ulp (a div 2)" by (subst ulp.simps) simp
    have "2 * (a div 2) \<le> a" by simp
    with ih u show ?thesis by simp
  qed
qed

lemma to_number_small: "\<bar>n\<bar> < 9007199254740992 \<Longrightarrow> to_number n = Finite n"
  by (simp add: to_number_def)

lemma to_number_large:
  assumes "9007199254740992 \<le> n"
  shows "to_number n = PosInfinity \<or> (\<exists>m \<ge> 9007199254740992. to_number n = Finite m)"
proof -
  from assms have n0: "0 \<le> n" and a: "\<bar>n\<bar> = n" by simp_all
  from assms have h: "4503599627370496 \<le> n div 2" by simp
  from assms have u: "ulp n = 2 * ulp (n div 2)" by (subst ulp.simps) simp
  from ulp_lower [OF h] u have u2: "2 \<le> ulp n" by simp
  from assms have "4503599627370496 \<le> n" by simp
  from ulp_lower [OF this] have l: "4503599627370496 * ulp n \<le> n" and up: "0 < ulp n"
    by simp_all
  have "(4503599627370496 * ulp n) div ulp n \<le> n div ulp n"
    using l by (rule zdiv_mono1) (use up in simp)
  with up have q: "4503599627370496 \<le> n div ulp n" by simp
  define q' where "q' = (if ulp n < 2 * (n mod ulp n) \<or> (2 * (n mod ulp n) = ulp n \<and> odd (n div ulp n))
                         then n div ulp n + 1 else n div ulp n)"
  from q have q': "4503599627370496 \<le> q'" by (simp add: q'_def)
  have "4503599627370496 * 2 \<le> q' * ulp n"
    using q' u2 by (intro mult_mono) simp_all
  then have m: "9007199254740992 \<le> q' * ulp n" by simp
  from assms have "\<not> n < 9007199254740992" by simp
  then have "to_number n = (if 2 ^ 1024 \<le> q' * ulp n then PosInfinity else Finite (q' * ulp n))"
    using n0 by (simp add: to_number_def a Let_def q'_def)
  with m show ?thesis by auto
qed





lemma to_number_ge_1:
  assumes "1 \<le> n"
  shows "to_number n = PosInfinity \<or> (\<exists>m \<ge> 1. to_number n = Finite m)"
proof (cases "n < 9007199254740992")
  case True
  with assms show ?thesis by (simp add: to_number_small)
next
  case False
  then have "9007199254740992 \<le> n" by simp
  from to_number_large [OF this] show ?thesis by force
qed

lemma paginate_first:
  assumes "1 \<le> n"
  shows "\<exists>more. paginate (e # xs) (Finite 1) (Finite n) = e # more"
proof -
  have start: "mul_js (sub_js (Finite 1) (Finite 1)) (Finite n) = Finite 0"
    by (simp add: sub_js_def neg_js_def add_js_def mul_js_def to_number_small)
  from to_number_ge_1 [OF assms]
  have "add_js (Finite 0) (Finite n) = PosInfinity \<or>
        (\<exists>m \<ge> 1. add_js (Finite 0) (Finite n) = Finite m)"
    by (simp add: add_js_def)
  then show ?thesis
  proof
    assume "add_js (Finite 0) (Finite n) = PosInfinity"
    then show ?thesis
      by (simp add: paginate_def Let_def start slice_def slice_index_def)
  next
    assume "\<exists>m \<ge> 1. add_js (Finite 0) (Finite n) = Finite m"
    then obtain m where m: "1 \<le> m" "add_js (Finite 0) (Finite n) = Finite m" by blast
    from m(1) obtain k where "nat (min m (int (length (e # xs)))) = Suc k"
      by (cases "nat (min m (int (length (e # xs))))") (auto simp: min_def split: if_splits)
    with m show ?thesis
      by (simp add: paginate_def Let_def start slice_def slice_index_def)
  qed
qed

lemma paginate_infinite: "paginate xs (Finite p) PosInfinity = []"
  by (cases "to_number (p - 1)")
     (auto simp: paginate_def Let_def sub_js_def neg_js_def add_js_def mul_js_def
        slice_def slice_index_def negative_def)

subsection \<open>The blocks of the handler\<close>

lemma lowerUser_normalized: "lowerUser item = normalized_username item"
  by (simp add: lowerUser_def normalized_username_def or_str_def split: option.splits)

lemma parse_page_limit_Inr:
  "parse_page_limit req = Inr (pageInt, limitInt) \<longleftrightarrow>
     pageInt = parseInt (page_param req) \<and> limitInt = parseInt (limit_param req) \<and>
     pageInt \<noteq> NaN \<and> \<not> less_js pageInt (Finite 1) \<and>
     limitInt \<noteq> NaN \<and> \<not> less_js limitInt (Finite 1) \<and> \<not> less_js MAX_PAGES pageInt"
  by (auto simp: parse_page_limit_def Let_def)

lemma parse_page_limit_Inl:
  "parse_page_limit req = Inl c \<Longrightarrow> \<exists>r. c = Return r \<and> status r = 400"
  by (auto simp: parse_page_limit_def Let_def error_response_def split: if_splits)

lemma validate_Inr:
  "validate req = Inr (query, pageInt, limitInt) \<longleftrightarrow>
     query = req_query req \<and> param_truthy query \<and> query \<noteq> Single ''*'' \<and>
     (case req_platform req of
        Absent \<Rightarrow> True
      | Single platform \<Rightarrow> platform = [] \<or> toLowerCase platform = ''instagram''
      | Repeated ps \<Rightarrow> False) \<and>
     parse_page_limit req = Inr (pageInt, limitInt)"
  by (cases "parse_page_limit req")
     (auto simp: validate_def Let_def split: param.splits)

lemma validate_Return: "validate req = Inl (Return r) \<Longrightarrow> status r = 400"
  by (auto simp: validate_def Let_def error_response_def map_sum_def
      split: param.splits if_splits sum.splits dest: parse_page_limit_Inl)

lemma validate_Throw:
  "validate req = Inl (Throw m) \<longleftrightarrow>
     param_truthy (req_query req) \<and> req_query req \<noteq> Single ''*'' \<and>
     (\<exists>ps. req_platform req = Repeated ps) \<and>
     m = Some ''platform.toLowerCase is not a function''"
  by (auto simp: validate_def Let_def map_sum_def
      split: param.splits if_splits sum.splits dest: parse_page_limit_Inl)

lemma validated_page:
  assumes "validate req = Inr (query, pageInt, limitInt)"
  shows "\<exists>p. pageInt = Finite p \<and> 1 \<le> p \<and> p \<le> 7"
proof -
  from assms have "pageInt \<noteq> NaN" "\<not> less_js pageInt (Finite 1)" "\<not> less_js MAX_PAGES pageInt"
    by (auto simp: validate_Inr parse_page_limit_Inr)
  then show ?thesis by (cases pageInt) (simp_all add: MAX_PAGES_def)
qed

lemma validated_limit:
  assumes "validate req = Inr (query, pageInt, limitInt)"
  shows "limitInt = PosInfinity \<or> (\<exists>n \<ge> 1. limitInt = Finite n)"
proof -
  from assms have "limitInt \<noteq> NaN" "\<not> less_js limitInt (Finite 1)"
    by (auto simp: validate_Inr parse_page_limit_Inr)
  then show ?thesis by (cases limitInt) simp_all
qed

lemma catch_block_status:
  "status (catch_block m) =
     (if message_includes m ''TIMEOUT'' then 504
      else if message_includes m ''invalid token'' then 401 else 500)"
  by (simp add: catch_block_def error_response_def)

lemma type_error_status:
  "status (catch_block (Some ''platform.toLowerCase is not a function'')) = 500"
  "status (catch_block (Some ''query.toLowerCase is not a function'')) = 500"
  "status (catch_block (Some ''fullData.findIndex is not a function'')) = 500"
  by code_simp+

lemma handler_invalid:
  "req_method req = ''GET'' \<Longrightarrow> validate req = Inl (Return r) \<Longrightarrow>
   handler fetch req s = (r, s)"
  by (simp add: handler_def try_block_def)

lemma handler_platform_array:
  "req_method req = ''GET'' \<Longrightarrow> validate req = Inl (Throw m) \<Longrightarrow>
   handler fetch req s = (catch_block m, s)"
  by (simp add: handler_def try_block_def)

lemma handler_query_array:
  "req_method req = ''GET'' \<Longrightarrow> validate req = Inr (Repeated qs, pageInt, limitInt) \<Longrightarrow>
   handler fetch req s = (catch_block (Some ''query.toLowerCase is not a function''), s)"
  by (simp add: handler_def try_block_def)

lemma handler_loaded:
  "req_method req = ''GET'' \<Longrightarrow> validate req = Inr (Single query, pageInt, limitInt) \<Longrightarrow>
   load_fullData fetch query limitInt s = (Inl fullData, s') \<Longrightarrow>
   handler fetch req s = (respond fullData query pageInt limitInt, s')"
  by (simp add: handler_def try_block_def)

lemma handler_returned:
  "req_method req = ''GET'' \<Longrightarrow> validate req = Inr (Single query, pageInt, limitInt) \<Longrightarrow>
   load_fullData fetch query limitInt s = (Inr (Return r), s') \<Longrightarrow>
   handler fetch req s = (r, s')"
  by (simp add: handler_def try_block_def)

lemma handler_thrown:
  "req_method req = ''GET'' \<Longrightarrow> validate req = Inr (Single query, pageInt, limitInt) \<Longrightarrow>
   load_fullData fetch query limitInt s = (Inr (Throw m), s') \<Longrightarrow>
   handler fetch req s = (catch_block m, s')"
  by (simp add: handler_def try_block_def)

lemma validated_query:
  assumes "validate req = Inr (query, pageInt, limitInt)"
  shows "(\<exists>q. query = Single q) \<or> (\<exists>qs. query = Repeated qs)"
proof -
  from assms have "param_truthy query" unfolding validate_Inr by blast
  then show ?thesis by (cases query) (simp_all add: param_truthy_def)
qed

lemma load_miss:
  assumes "cache_get (fullSearchCache s) (toLowerCase query) = Undefined"
  shows "load_fullData fetch query limitInt s =
     (let s1 = s\<lparr>fetch_calls := fetch_calls s @ [(query, mul_js MAX_PAGES limitInt)]\<rparr>
      in case fetch query (mul_js MAX_PAGES limitInt) of
           ActorCallFails m \<Rightarrow> (Inr (Throw m), s1)
         | RunWithoutDataset \<Rightarrow>
             (Inr (Return (error_response 502
                [Lit ''Apify actor did not return a valid dataset. Possibly a scraping failure.''])), s1)
         | ListItemsFails m \<Rightarrow> (Inr (Throw m), s1)
         | ListItems None \<Rightarrow>
             (Inr (Return (error_response 404 [Lit ''No related profiles found.''])), s1)
         | ListItems (Some []) \<Rightarrow>
             (Inr (Return (error_response 404 [Lit ''No related profiles found.''])), s1)
         | ListItems (Some (x # xs)) \<Rightarrow>
             (Inl (x # xs),
              s1\<lparr>fullSearchCache := (fullSearchCache s)(toLowerCase query \<mapsto> x # xs)\<rparr>))"
  using assms
  by (simp add: load_fullData_def Let_def
      split: fetch_outcome.splits option.splits list.splits)

lemma load_inherited:
  "cache_get (fullSearchCache s) (toLowerCase query) = Inherited \<Longrightarrow>
   load_fullData fetch query limitInt s =
     (Inr (Throw (Some ''fullData.findIndex is not a function'')), s)"
  by (simp add: load_fullData_def)


lemma respond_empty_page:
  "paginate (rank fullData query) pageInt limitInt = [] \<Longrightarrow>
   status (respond fullData query pageInt limitInt) = 404"
  by (simp add: respond_def error_response_def)

lemma load_return_status:
  "load_fullData fetch query limitInt s = (Inr (Return r), s') \<Longrightarrow>
   status r = 502 \<or> status r = 404"
  by (auto simp: load_fullData_def Let_def error_response_def
      split: cache_value.splits fetch_outcome.splits option.splits list.splits)

lemma load_Inl_cached:
  "load_fullData fetch query limitInt s = (Inl d, s') \<Longrightarrow>
   fullSearchCache s' (toLowerCase query) = Some d"
  by (auto simp: load_fullData_def Let_def cache_get_def
      split: cache_value.splits fetch_outcome.splits option.splits list.splits if_splits)

lemma handler_200:
  assumes "status (fst (handler fetch req s)) = 200"
  shows "\<exists>query pageInt limitInt fullData s'.
           req_method req = ''GET'' \<and> validate req = Inr (Single query, pageInt, limitInt) \<and>
           load_fullData fetch query limitInt s = (Inl fullData, s') \<and>
           handler fetch req s = (respond fullData query pageInt limitInt, s')"
proof -
  from assms have g: "req_method req = ''GET''"
    by (auto simp: handler_def error_response_def split: if_splits)
  show ?thesis
  proof (cases "validate req")
    case (Inl c)
    show ?thesis
    proof (cases c)
      case (Return r)
      with Inl handler_invalid [OF g, of r] validate_Return [of req r] assms
      show ?thesis by simp
    next
      case (Throw m)
      with Inl have v: "validate req = Inl (Throw m)" by simp
      then have "m = Some ''platform.toLowerCase is not a function''"
        by (simp add: validate_Throw)
      with handler_platform_array [OF g v] assms show ?thesis
        by (simp add: type_error_status)
    qed
  next
    case (Inr t)
    obtain qp pageInt limitInt where t: "t = (qp, pageInt, limitInt)" by (cases t)
    with Inr have v0: "validate req = Inr (qp, pageInt, limitInt)" by simp
    from validated_query [OF v0] show ?thesis
    proof
      assume "\<exists>qs. qp = Repeated qs"
      then obtain qs where "qp = Repeated qs" ..
      with v0 have "validate req = Inr (Repeated qs, pageInt, limitInt)" by simp
      from handler_query_array [OF g this] assms show ?thesis
        by (simp add: type_error_status)
    next
      assume "\<exists>q. qp = Single q"
      then obtain query where "qp = Single query" ..
      with v0 have v: "validate req = Inr (Single query, pageInt, limitInt)" by simp
      obtain out s' where l: "load_fullData fetch query limitInt s = (out, s')" by force
      show ?thesis
      proof (cases out)
        case (Inl fullData)
        with g v l handler_loaded [OF g v] show ?thesis by blast
      next
        case (Inr c)
        show ?thesis
        proof (cases c)
          case (Return r)
          with Inr l have l': "load_fullData fetch query limitInt s = (Inr (Return r), s')"
            by simp
          from handler_returned [OF g v l'] load_return_status [OF l'] assms
          show ?thesis by auto
        next
          case (Throw m)
          with Inr l have l': "load_fullData fetch query limitInt s = (Inr (Throw m), s')"
            by simp
          from handler_thrown [OF g v l'] assms show ?thesis
            by (simp add: catch_block_status split: if_splits)
        qed
      qed
    qed
  qed
qed

lemma load_cache_mono:
  "fullSearchCache s k = Some d \<Longrightarrow>
   fullSearchCache (snd (load_fullData fetch query limitInt s)) k = Some d"
  by (auto simp: load_fullData_def cache_get_def Let_def
      split: option.splits fetch_outcome.splits list.splits if_splits)

lemma load_calls:
  "fetch_calls (snd (load_fullData fetch query limitInt s)) =
     (if cache_get (fullSearchCache s) (toLowerCase query) = Undefined
      then fetch_calls s @ [(query, mul_js MAX_PAGES limitInt)] else fetch_calls s)"
  by (auto simp: load_fullData_def Let_def
      split: option.splits fetch_outcome.splits list.splits cache_value.splits)

lemma handler_state:
  "snd (handler fetch req s) =
     (if req_method req = ''GET'' then
        (case validate req of
           Inl c \<Rightarrow> s
         | Inr (query, pageInt, limitInt) \<Rightarrow>
             (case query of
                Single q \<Rightarrow> snd (load_fullData fetch q limitInt s)
              | _ \<Rightarrow> s))
      else s)"
  by (auto simp: handler_def try_block_def
      split: sum.splits prod.splits completion.splits param.splits)

lemma handler_cache_mono:
  "fullSearchCache s k = Some d \<Longrightarrow> fullSearchCache (snd (handler fetch req s)) k = Some d"
  by (simp add: handler_state load_cache_mono split: sum.splits param.splits)

lemma handler_calls:
  "fetch_calls (snd (handler fetch req s)) =
     (case validate req of
        Inr (Single query, pageInt, limitInt) \<Rightarrow>
          if req_method req = ''GET'' \<and>
             cache_get (fullSearchCache s) (toLowerCase query) = Undefined
          then fetch_calls s @ [(query, mul_js MAX_PAGES limitInt)] else fetch_calls s
      | _ \<Rightarrow> fetch_calls s)"
  by (simp add: handler_state load_calls split: sum.splits param.splits)

lemma serve_state_Cons:
  "snd (serve ((fetch, req) # rest) s) = snd (serve rest (snd (handler fetch req s)))"
  by (simp add: Let_def split: prod.splits)

lemma serve_cached:
  assumes "fullSearchCache s k = Some d"
  shows "fullSearchCache (snd (serve reqs s)) k = Some d \<and>
         (\<exists>new. fetch_calls (snd (serve reqs s)) = fetch_calls s @ new \<and>
                (\<forall>c \<in> set new. toLowerCase (fst c) \<noteq> k))"
  using assms
proof (induction reqs arbitrary: s)
  case Nil
  then show ?case by simp
next
  case (Cons a rest)
  obtain fetch req where a: "a = (fetch, req)" by (cases a)
  let ?s1 = "snd (handler fetch req s)"
  from Cons.prems have c1: "fullSearchCache ?s1 k = Some d" by (rule handler_cache_mono)
  from Cons.prems have hit: "cache_get (fullSearchCache s) k \<noteq> Undefined"
    by (simp add: cache_get_def)
  have "\<exists>new1. fetch_calls ?s1 = fetch_calls s @ new1 \<and>
               (\<forall>c \<in> set new1. toLowerCase (fst c) \<noteq> k)"
  proof (cases "fetch_calls ?s1 = fetch_calls s")
    case True
    then show ?thesis by simp
  next
    case False
    then obtain query n where
      "cache_get (fullSearchCache s) (toLowerCase query) = Undefined"
      "fetch_calls ?s1 = fetch_calls s @ [(query, n)]"
      by (auto simp: handler_calls split: sum.splits if_splits param.splits)
    with hit show ?thesis by auto
  qed
  then obtain new1 where n1: "fetch_calls ?s1 = fetch_calls s @ new1"
    "\<forall>c \<in> set new1. toLowerCase (fst c) \<noteq> k" by blast
  from Cons.IH [OF c1] obtain new2 where
    c2: "fullSearchCache (snd (serve rest ?s1)) k = Some d"
    and n2: "fetch_calls (snd (serve rest ?s1)) = fetch_calls ?s1 @ new2"
      "\<forall>c \<in> set new2. toLowerCase (fst c) \<noteq> k" by blast
  from n1 n2 have "fetch_calls (snd (serve rest ?s1)) = fetch_calls s @ (new1 @ new2) \<and>
     (\<forall>c \<in> set (new1 @ new2). toLowerCase (fst c) \<noteq> k)" by auto
  with c2 show ?case unfolding a serve_state_Cons by blast
qed







lemma parseInt_huge: "parseInt huge_limit = PosInfinity"
  by code_simp

lemma validate_huge_limit:
  "validate (get_request ''alice'' Absent (Single huge_limit)) =
     Inr (Single ''alice'', Finite 1, PosInfinity)"
proof -
  have p1: "parseInt ''1'' = Finite 1" by code_simp
  have q: "''alice'' \<noteq> ''*''" by simp
  show ?thesis
    by (simp add: validate_Inr parse_page_limit_Inr get_request_def param_truthy_def
        page_param_def limit_param_def parseInt_huge p1 MAX_PAGES_def)
qed

section \<open>The claims\<close>

subsection \<open>Ranking\<close>

text \<open>
  Claim C1, amended: ranking adds no record. The ranked sequence consists of the first
  record whose lowercased username equals the lowercased query, if there is one, and of
  all records that are not exact matches; so it is a permutation of the input whenever at
  most one record is an exact match. The block places \<^verbatim>\<open>exactMatches[0]\<close> at the top and
  removes all exact matches from the rest, as its comments say.
\<close>

theorem rank_keeps_all_but_further_exact_matches:
  "mset (rank fullData query) =
     mset (take 1 (filter (\<lambda>item. lowerUser item = toLowerCase query) fullData)) +
     mset (filter (\<lambda>item. lowerUser item \<noteq> toLowerCase query) fullData) \<and>
   (length (filter (\<lambda>item. lowerUser item = toLowerCase query) fullData) \<le> 1 \<longrightarrow>
      mset (rank fullData query) = mset fullData)"
proof -
  let ?P = "\<lambda>item. lowerUser item = toLowerCase query"
  have a: "mset (rank fullData query) =
             mset (take 1 (filter ?P fullData)) + mset (filter (\<lambda>item. \<not> ?P item) fullData)"
  proof (cases "List.find ?P fullData")
    case None
    then have "filter ?P fullData = []" by (simp add: find_None_iff filter_empty_conv)
    moreover from None have "filter (\<lambda>item. \<not> ?P item) fullData = fullData"
      by (simp add: find_None_iff filter_id_conv)
    ultimately show ?thesis by (simp add: rank_no_exact [OF None] sort_js_mset)
  next
    case (Some e)
    from find_filter [OF Some] obtain ys where "filter ?P fullData = e # ys" by blast
    then show ?thesis by (simp add: rank_exact [OF Some] sort_js_mset)
  qed
  have b: "mset (rank fullData query) = mset fullData" if "length (filter ?P fullData) \<le> 1"
  proof -
    from that have "take 1 (filter ?P fullData) = filter ?P fullData" by simp
    with a filter_partition_mset [of ?P fullData] show ?thesis by simp
  qed
  from a b show ?thesis by blast
qed

theorem rank_keeps_all_but_further_exact_matches_witness:
  "length (filter (\<lambda>item. lowerUser item = toLowerCase ''alice'')
             [user ''alice_w'', user ''alice'', user ''xalice'']) \<le> 1 \<and>
   mset (rank [user ''alice_w'', user ''alice'', user ''xalice''] ''alice'') =
     mset [user ''alice_w'', user ''alice'', user ''xalice'']"
proof -
  have h: "length (filter (\<lambda>item. lowerUser item = toLowerCase ''alice'')
             [user ''alice_w'', user ''alice'', user ''xalice'']) \<le> 1"
    by code_simp
  with rank_keeps_all_but_further_exact_matches
    [of "[user ''alice_w'', user ''alice'', user ''xalice'']" "''alice''"]
  show ?thesis by blast
qed

text \<open>
  The claim as first stated has a permutation for every dataset, with further exact
  matches sorted into the remainder. With two records whose usernames are \<^verbatim>\<open>alice\<close> and
  \<^verbatim>\<open>Alice\<close> and the query \<^verbatim>\<open>alice\<close>, the ranked sequence holds the first record alone.
\<close>

theorem rank_drops_second_exact_match:
  "rank [user_with_id ''1'' ''alice'', user_with_id ''2'' ''Alice''] ''alice'' =
     [user_with_id ''1'' ''alice''] \<and>
   mset (rank [user_with_id ''1'' ''alice'', user_with_id ''2'' ''Alice''] ''alice'') \<noteq>
     mset [user_with_id ''1'' ''alice'', user_with_id ''2'' ''Alice'']"
proof -
  have r: "rank [user_with_id ''1'' ''alice'', user_with_id ''2'' ''Alice''] ''alice'' =
     [user_with_id ''1'' ''alice'']" by code_simp
  have "size (mset [user_with_id ''1'' ''alice'']) \<noteq>
        size (mset [user_with_id ''1'' ''alice'', user_with_id ''2'' ''Alice''])" by simp
  then have "mset [user_with_id ''1'' ''alice''] \<noteq>
        mset [user_with_id ''1'' ''alice'', user_with_id ''2'' ''Alice'']" by metis
  with r show ?thesis by simp
qed

text \<open>
  Claim C2, amended: when some record's username in lowercase (a missing username counts
  as the empty string) equals the lowercased query, and \<open>e\<close> is the first such record in
  input order, the ranked sequence is \<open>e\<close> followed by the records that are not exact
  matches, arranged so that usernames starting with the query precede the others and,
  among records that agree on that, shorter usernames precede longer ones. Hence \<open>e\<close>
  heads the slice of page 1 for every finite page size of at least 1, and the handler's
  response for page 1 then has the profile of \<open>e\<close> first. For the usernames \<^verbatim>\<open>alice_w\<close>,
  \<^verbatim>\<open>alice\<close>, \<^verbatim>\<open>xalice\<close> and the query \<^verbatim>\<open>alice\<close> the order is \<^verbatim>\<open>alice\<close>, \<^verbatim>\<open>alice_w\<close>,
  \<^verbatim>\<open>xalice\<close>; letter case is ignored on both sides, and a record without username is
  ranked as the empty string.
\<close>

theorem exact_match_first:
  assumes split: "fullData = pre @ e # post"
    and pre: "\<forall>x \<in> set pre. normalized_username x \<noteq> toLowerCase query"
    and e: "normalized_username e = toLowerCase query"
  shows "\<exists>rest.
      rank fullData query = e # rest \<and>
      mset rest =
        mset (filter (\<lambda>item. normalized_username item \<noteq> toLowerCase query) fullData) \<and>
      sorted_wrt
        (\<lambda>a b. (startsWith (normalized_username b) (toLowerCase query) \<longrightarrow>
                  startsWith (normalized_username a) (toLowerCase query)) \<and>
               (startsWith (normalized_username a) (toLowerCase query) =
                  startsWith (normalized_username b) (toLowerCase query) \<longrightarrow>
                  length (normalized_username a) \<le> length (normalized_username b))) rest \<and>
      (\<forall>n \<ge> 1. \<exists>more. paginate (rank fullData query) (Finite 1) (Finite n) = e # more) \<and>
      (\<forall>fetch req s s' limitInt.
         req_method req = ''GET'' \<longrightarrow>
         validate req = Inr (Single query, Finite 1, limitInt) \<longrightarrow>
         limitInt \<noteq> PosInfinity \<longrightarrow>
         load_fullData fetch query limitInt s = (Inl fullData, s') \<longrightarrow>
         (\<exists>ps. fst (handler fetch req s) =
            \<lparr>status = 200,
             body = PageBody \<lparr>profiles = toProfile e # ps, total_n = length fullData,
                              currentPage = Finite 1, totalPages = MAX_PAGES\<rparr>\<rparr>)) \<and>
      rank [user ''alice_w'', user ''alice'', user ''xalice''] ''alice'' =
        [user ''alice'', user ''alice_w'', user ''xalice''] \<and>
      rank [anonymous ''7'', user ''Alice_W'', user ''ALICE'', user ''xalice''] ''Alice'' =
        [user ''ALICE'', user ''Alice_W'', anonymous ''7'', user ''xalice'']"
proof -
  let ?q = "toLowerCase query"
  let ?rest = "sort_js (compareProfiles ?q) (filter (\<lambda>item. lowerUser item \<noteq> ?q) fullData)"
  have "List.find (\<lambda>item. lowerUser item = ?q) fullData = Some e"
    unfolding split using pre e by (intro first_match_find) (auto simp: lowerUser_normalized)
  then have r: "rank fullData query = e # ?rest" by (rule rank_exact)
  have m: "mset ?rest =
             mset (filter (\<lambda>item. normalized_username item \<noteq> ?q) fullData)"
    by (simp add: sort_js_mset lowerUser_normalized)
  have o: "sorted_wrt
        (\<lambda>a b. (startsWith (normalized_username b) ?q \<longrightarrow>
                  startsWith (normalized_username a) ?q) \<and>
               (startsWith (normalized_username a) ?q = startsWith (normalized_username b) ?q \<longrightarrow>
                  length (normalized_username a) \<le> length (normalized_username b))) ?rest"
    using sort_js_ordered [of ?q] by (simp only: lowerUser_normalized)
  have p: "\<exists>more. paginate (rank fullData query) (Finite 1) (Finite n) = e # more"
    if "1 \<le> n" for n
    using paginate_first [OF that] by (simp only: r)
  have h: "\<exists>ps. fst (handler fetch req s) =
            \<lparr>status = 200,
             body = PageBody \<lparr>profiles = toProfile e # ps, total_n = length fullData,
                              currentPage = Finite 1, totalPages = MAX_PAGES\<rparr>\<rparr>"
    if g: "req_method req = ''GET''"
      and v: "validate req = Inr (Single query, Finite 1, limitInt)"
      and f: "limitInt \<noteq> PosInfinity"
      and l: "load_fullData fetch query limitInt s = (Inl fullData, s')"
    for fetch req s s' limitInt
  proof -
    from validated_limit [OF v] f obtain n where n: "1 \<le> n" "limitInt = Finite n" by blast
    from p [OF n(1)] obtain more where
      "paginate (rank fullData query) (Finite 1) limitInt = e # more"
      unfolding n(2) by blast
    then show ?thesis
      by (simp add: handler_loaded [OF g v l] respond_def Let_def)
  qed
  have ex: "rank [user ''alice_w'', user ''alice'', user ''xalice''] ''alice'' =
        [user ''alice'', user ''alice_w'', user ''xalice'']"
    by code_simp
  have ex2: "rank [anonymous ''7'', user ''Alice_W'', user ''ALICE'', user ''xalice''] ''Alice'' =
        [user ''ALICE'', user ''Alice_W'', anonymous ''7'', user ''xalice'']"
    by code_simp
  from r m o p h ex ex2 show ?thesis by blast
qed

theorem exact_match_first_witness:
  "normalized_username (user ''alice_w'') \<noteq> toLowerCase ''alice'' \<and>
   normalized_username (user ''alice'') = toLowerCase ''alice'' \<and>
   (\<exists>rest more.
      rank [user ''alice_w'', user ''alice'', user ''xalice''] ''alice'' = user ''alice'' # rest \<and>
      paginate (rank [user ''alice_w'', user ''alice'', user ''xalice''] ''alice'')
        (Finite 1) (Finite 5) = user ''alice'' # more) \<and>
   (\<exists>ps. fst (handler (\<lambda>q l. ListItems (Some [user ''alice_w'', user ''alice'', user ''xalice'']))
                 (get_request ''alice'' Absent Absent) initial_state) =
      \<lparr>status = 200,
       body = PageBody \<lparr>profiles = toProfile (user ''alice'') # ps, total_n = 3,
                        currentPage = Finite 1, totalPages = MAX_PAGES\<rparr>\<rparr>)"
proof -
  let ?data = "[user ''alice_w'', user ''alice'', user ''xalice'']"
  let ?fetch = "\<lambda>(q::string) (l::number). ListItems (Some ?data)"
  have h1: "?data = [user ''alice_w''] @ user ''alice'' # [user ''xalice'']" by simp
  have h2: "normalized_username (user ''alice_w'') \<noteq> toLowerCase ''alice''" by code_simp
  then have h2': "\<forall>x \<in> set [user ''alice_w'']. normalized_username x \<noteq> toLowerCase ''alice''"
    by simp
  have h3: "normalized_username (user ''alice'') = toLowerCase ''alice''" by code_simp
  have g: "req_method (get_request ''alice'' Absent Absent) = ''GET''"
    by (simp add: get_request_def)
  have v: "validate (get_request ''alice'' Absent Absent) =
             Inr (Single ''alice'', Finite 1, Finite 5)" by code_simp
  have f: "Finite 5 \<noteq> PosInfinity" by simp
  have u: "cache_get (fullSearchCache initial_state) (toLowerCase ''alice'') = Undefined"
    by code_simp
  obtain s' where l: "load_fullData ?fetch ''alice'' (Finite 5) initial_state = (Inl ?data, s')"
    by (simp add: load_miss [OF u] Let_def)
  from exact_match_first [OF h1 h2' h3] obtain rest where
    r: "rank ?data ''alice'' = user ''alice'' # rest"
    and p: "\<forall>n \<ge> 1. \<exists>more.
        paginate (rank ?data ''alice'') (Finite 1) (Finite n) = user ''alice'' # more"
    and h: "\<forall>fetch req s s' limitInt.
         req_method req = ''GET'' \<longrightarrow>
         validate req = Inr (Single ''alice'', Finite 1, limitInt) \<longrightarrow>
         limitInt \<noteq> PosInfinity \<longrightarrow>
         load_fullData fetch ''alice'' limitInt s = (Inl ?data, s') \<longrightarrow>
         (\<exists>ps. fst (handler fetch req s) =
            \<lparr>status = 200,
             body = PageBody \<lparr>profiles = toProfile (user ''alice'') # ps,
                              total_n = length ?data,
                              currentPage = Finite 1, totalPages = MAX_PAGES\<rparr>\<rparr>)"
    by blast
  from p have p5: "\<exists>more. paginate (rank ?data ''alice'') (Finite 1) (Finite 5) =
      user ''alice'' # more"
    by simp
  from h g v f l have "\<exists>ps. fst (handler ?fetch (get_request ''alice'' Absent Absent) initial_state) =
            \<lparr>status = 200,
             body = PageBody \<lparr>profiles = toProfile (user ''alice'') # ps,
                              total_n = length ?data,
                              currentPage = Finite 1, totalPages = MAX_PAGES\<rparr>\<rparr>"
    by blast
  then have "\<exists>ps. fst (handler ?fetch (get_request ''alice'' Absent Absent) initial_state) =
            \<lparr>status = 200,
             body = PageBody \<lparr>profiles = toProfile (user ''alice'') # ps, total_n = 3,
                              currentPage = Finite 1, totalPages = MAX_PAGES\<rparr>\<rparr>"
    by (simp add: numeral_3_eq_3)
  with r p5 h2 h3 show ?thesis by blast
qed

text \<open>
  The claim as first stated has the exact match first on page 1 for every page size of at
  least 1, followed by the whole remainder. A limit of 310 digits is read as
  \<^verbatim>\<open>Infinity\<close>, passes validation, and makes the start index \<^verbatim>\<open>0 * Infinity = NaN\<close>: the
  slice of page 1 is empty and the answer is 404. And a second exact match is not part of
  what follows the first.
\<close>

theorem page_one_empty_and_second_match_absent:
  "status (fst (handler (\<lambda>q l. ListItems (Some [user ''alice_w'', user ''alice'']))
                 (get_request ''alice'' Absent (Single huge_limit)) initial_state)) = 404 \<and>
   rank [user_with_id ''1'' ''alice'', user ''alice_w'', user_with_id ''2'' ''Alice''] ''alice'' =
     [user_with_id ''1'' ''alice'', user ''alice_w'']"
proof -
  let ?fetch = "\<lambda>(q::string) (l::number). ListItems (Some [user ''alice_w'', user ''alice''])"
  have g: "req_method (get_request ''alice'' Absent (Single huge_limit)) = ''GET''"
    by (simp add: get_request_def)
  have u: "cache_get (fullSearchCache initial_state) (toLowerCase ''alice'') = Undefined"
    by code_simp
  obtain s' where l: "load_fullData ?fetch ''alice'' PosInfinity initial_state =
      (Inl [user ''alice_w'', user ''alice''], s')"
    by (simp add: load_miss [OF u] Let_def)
  from handler_loaded [OF g validate_huge_limit l]
  have "status (fst (handler ?fetch (get_request ''alice'' Absent (Single huge_limit))
          initial_state)) = 404"
    by (simp add: respond_empty_page paginate_infinite)
  moreover have
    "rank [user_with_id ''1'' ''alice'', user ''alice_w'', user_with_id ''2'' ''Alice''] ''alice'' =
       [user_with_id ''1'' ''alice'', user ''alice_w'']"
    by code_simp
  ultimately show ?thesis by simp
qed

text \<open>
  Claim C8: ranking is idempotent (ranking a ranked sequence again for the same query
  returns it unchanged) and stable (records that are not exact matches and that the
  comparator does not separate, having the same prefix flag and the same length, keep
  their input order). As a function of the dataset and the query it returns the same
  result for the same arguments. On arrays held by reference the block writes to arrays
  it has allocated itself only: afterwards the array of \<open>fullData\<close> holds what it held
  before, and the result array holds \<open>rank fullData query\<close>.
\<close>

theorem rank_stable_idempotent:
  "rank (rank fullData query) query = rank fullData query \<and>
   (\<forall>b n.
      filter (\<lambda>item. startsWith (lowerUser item) (toLowerCase query) = b \<and>
                     length (lowerUser item) = n \<and> lowerUser item \<noteq> toLowerCase query)
        (rank fullData query) =
      filter (\<lambda>item. startsWith (lowerUser item) (toLowerCase query) = b \<and>
                     length (lowerUser item) = n \<and> lowerUser item \<noteq> toLowerCase query)
        fullData) \<and>
   (arrays h ref = Some fullData \<and> ref < next_ref h \<longrightarrow>
      (\<exists>orderedData h'.
         rank_refs ref query h = Some (orderedData, h') \<and>
         arrays h' orderedData = Some (rank fullData query) \<and>
         arrays h' ref = Some fullData))"
proof -
  let ?q = "toLowerCase query"
  let ?ne = "\<lambda>item. lowerUser item \<noteq> ?q"
  have key: "(startsWith (lowerUser item) ?q = b \<and> length (lowerUser item) = n) =
             (rank_key ?q item = (\<not> b, n))" for item b n
    by (auto simp: rank_key_def)
  have st: "filter (\<lambda>item. rank_key ?q item = k \<and> ?ne item) (rank fullData query) =
            filter (\<lambda>item. rank_key ?q item = k \<and> ?ne item) fullData" for k
  proof (cases "List.find (\<lambda>item. lowerUser item = ?q) fullData")
    case None
    have "filter (\<lambda>item. rank_key ?q item = k \<and> ?ne item) (sort_js (compareProfiles ?q) fullData) =
          filter ?ne (filter (\<lambda>item. rank_key ?q item = k) (sort_js (compareProfiles ?q) fullData))"
      by (simp add: conj_commute)
    also have "\<dots> = filter ?ne (filter (\<lambda>item. rank_key ?q item = k) fullData)"
      by (simp only: sort_js_stable)
    also have "\<dots> = filter (\<lambda>item. rank_key ?q item = k \<and> ?ne item) fullData"
      by (simp add: conj_commute)
    finally show ?thesis by (simp only: rank_no_exact [OF None])
  next
    case (Some e)
    let ?S = "sort_js (compareProfiles ?q) (filter ?ne fullData)"
    have e: "lowerUser e = ?q" using find_member [OF Some] by simp
    have "filter (\<lambda>item. rank_key ?q item = k \<and> ?ne item) (e # ?S) =
          filter ?ne (filter (\<lambda>item. rank_key ?q item = k) ?S)"
      using e by (simp add: conj_commute)
    also have "\<dots> = filter ?ne (filter (\<lambda>item. rank_key ?q item = k) (filter ?ne fullData))"
      by (simp only: sort_js_stable)
    also have "\<dots> = filter (\<lambda>item. rank_key ?q item = k \<and> ?ne item) fullData"
      by (simp add: conj_commute cong: conj_cong)
    finally show ?thesis by (simp only: rank_exact [OF Some])
  qed
  have heap: "\<exists>orderedData h'.
         rank_refs ref query h = Some (orderedData, h') \<and>
         arrays h' orderedData = Some (rank fullData query) \<and>
         arrays h' ref = Some fullData"
    if "arrays h ref = Some fullData" "ref < next_ref h"
    using rank_refs_correct [OF that, of query] that by auto
  show ?thesis
    using rank_idem [of fullData query] st heap by (simp add: key conj_assoc [symmetric] del: conj_assoc)
qed

theorem rank_stable_idempotent_witness:
  "arrays \<lparr>arrays = [0 \<mapsto> [user ''alice_w'', user ''alice'']], next_ref = 1\<rparr> 0 =
     Some [user ''alice_w'', user ''alice''] \<and>
   (\<exists>orderedData h'.
      rank_refs 0 ''alice''
        \<lparr>arrays = [0 \<mapsto> [user ''alice_w'', user ''alice'']], next_ref = 1\<rparr> =
        Some (orderedData, h') \<and>
      arrays h' orderedData = Some (rank [user ''alice_w'', user ''alice''] ''alice'') \<and>
      arrays h' 0 = Some [user ''alice_w'', user ''alice''])"
  using rank_stable_idempotent
    [of "[user ''alice_w'', user ''alice'']" "''alice''"
        "\<lparr>arrays = [0 \<mapsto> [user ''alice_w'', user ''alice'']], next_ref = 1\<rparr>" 0]
  by simp

subsection \<open>Pagination\<close>




subsection \<open>Method guard and validation\<close>

text \<open>
  Claim C9: a request whose method is not \<^verbatim>\<open>GET\<close> is answered with status 405 and an
  error body, and the state is what it was: the cache is not read or written and the
  scraper is not called.
\<close>

theorem method_guard:
  "req_method req \<noteq> ''GET'' \<Longrightarrow>
     handler fetch req s =
       (\<lparr>status = 405, body = ErrorBody [Lit ''Method Not Allowed. Only GET is supported.'']\<rparr>, s)"
  by (simp add: handler_def error_response_def)

theorem method_guard_witness:
  "''POST'' \<noteq> ''GET'' \<and>
   handler (\<lambda>q l. ListItems (Some [user ''bob'']))
     \<lparr>req_method = ''POST'', req_query = Absent, req_platform = Absent,
      req_page = Absent, req_limit = Absent\<rparr> initial_state =
     (\<lparr>status = 405, body = ErrorBody [Lit ''Method Not Allowed. Only GET is supported.'']\<rparr>,
      initial_state)"
  using method_guard
    [of "\<lparr>req_method = ''POST'', req_query = Absent, req_platform = Absent,
          req_page = Absent, req_limit = Absent\<rparr>"
        "\<lambda>q l. ListItems (Some [user ''bob''])" initial_state]
  by simp




subsection \<open>Failures\<close>

text \<open>
  Claim C6, amended: for a valid \<^verbatim>\<open>GET\<close> request that misses the cache, a rejection of the
  actor call or of the listing whose message contains \<^verbatim>\<open>TIMEOUT\<close> gives 504; one whose
  message contains \<^verbatim>\<open>invalid token\<close> and does not contain \<^verbatim>\<open>TIMEOUT\<close> gives 401; any
  other rejection gives 500; a run without a dataset id gives 502; a listing without items
  gives 404. The failure of reading an inherited property of the cache object as an array
  gives 500, and an empty slice for the requested page gives 404.
\<close>

theorem failure_statuses:
  assumes g: "req_method req = ''GET''"
    and v: "validate req = Inr (Single query, pageInt, limitInt)"
  shows
    "(cache_get (fullSearchCache s) (toLowerCase query) = Undefined \<longrightarrow>
        (\<forall>m. fetch query (mul_js MAX_PAGES limitInt) = ActorCallFails m \<or>
              fetch query (mul_js MAX_PAGES limitInt) = ListItemsFails m \<longrightarrow>
           (message_includes m ''TIMEOUT'' \<longrightarrow>
              status (fst (handler fetch req s)) = 504) \<and>
           (message_includes m ''invalid token'' \<and> \<not> message_includes m ''TIMEOUT'' \<longrightarrow>
              status (fst (handler fetch req s)) = 401) \<and>
           (\<not> message_includes m ''invalid token'' \<and> \<not> message_includes m ''TIMEOUT'' \<longrightarrow>
              status (fst (handler fetch req s)) = 500)) \<and>
        (fetch query (mul_js MAX_PAGES limitInt) = RunWithoutDataset \<longrightarrow>
           status (fst (handler fetch req s)) = 502) \<and>
        (fetch query (mul_js MAX_PAGES limitInt) = ListItems None \<or>
         fetch query (mul_js MAX_PAGES limitInt) = ListItems (Some []) \<longrightarrow>
           status (fst (handler fetch req s)) = 404)) \<and>
     (cache_get (fullSearchCache s) (toLowerCase query) = Inherited \<longrightarrow>
        status (fst (handler fetch req s)) = 500) \<and>
     (\<forall>fullData s'.
        load_fullData fetch query limitInt s = (Inl fullData, s') \<and>
        paginate (rank fullData query) pageInt limitInt = [] \<longrightarrow>
          status (fst (handler fetch req s)) = 404)"
proof (intro conjI impI allI)
  fix m
  assume u: "cache_get (fullSearchCache s) (toLowerCase query) = Undefined"
    and f: "fetch query (mul_js MAX_PAGES limitInt) = ActorCallFails m \<or>
            fetch query (mul_js MAX_PAGES limitInt) = ListItemsFails m"
  from f have l: "load_fullData fetch query limitInt s =
      (Inr (Throw m), s\<lparr>fetch_calls := fetch_calls s @ [(query, mul_js MAX_PAGES limitInt)]\<rparr>)"
    by (auto simp: load_miss [OF u] Let_def)
  note h = handler_thrown [OF g v l]
  show "status (fst (handler fetch req s)) = 504" if "message_includes m ''TIMEOUT''"
    using that by (simp add: h catch_block_status)
  show "status (fst (handler fetch req s)) = 401"
    if "message_includes m ''invalid token'' \<and> \<not> message_includes m ''TIMEOUT''"
    using that by (simp add: h catch_block_status)
  show "status (fst (handler fetch req s)) = 500"
    if "\<not> message_includes m ''invalid token'' \<and> \<not> message_includes m ''TIMEOUT''"
    using that by (simp add: h catch_block_status)
next
  assume u: "cache_get (fullSearchCache s) (toLowerCase query) = Undefined"
    and f: "fetch query (mul_js MAX_PAGES limitInt) = RunWithoutDataset"
  from f have "load_fullData fetch query limitInt s =
      (Inr (Return (error_response 502
         [Lit ''Apify actor did not return a valid dataset. Possibly a scraping failure.''])),
       s\<lparr>fetch_calls := fetch_calls s @ [(query, mul_js MAX_PAGES limitInt)]\<rparr>)"
    by (simp add: load_miss [OF u] Let_def)
  from handler_returned [OF g v this]
  show "status (fst (handler fetch req s)) = 502" by (simp add: error_response_def)
next
  assume u: "cache_get (fullSearchCache s) (toLowerCase query) = Undefined"
    and f: "fetch query (mul_js MAX_PAGES limitInt) = ListItems None \<or>
            fetch query (mul_js MAX_PAGES limitInt) = ListItems (Some [])"
  from f have "load_fullData fetch query limitInt s =
      (Inr (Return (error_response 404 [Lit ''No related profiles found.''])),
       s\<lparr>fetch_calls := fetch_calls s @ [(query, mul_js MAX_PAGES limitInt)]\<rparr>)"
    by (auto simp: load_miss [OF u] Let_def)
  from handler_returned [OF g v this]
  show "status (fst (handler fetch req s)) = 404" by (simp add: error_response_def)
next
  assume "cache_get (fullSearchCache s) (toLowerCase query) = Inherited"
  from handler_thrown [OF g v load_inherited [OF this]]
  have "handler fetch req s =
          (catch_block (Some ''fullData.findIndex is not a function''), s)" .
  moreover have "\<not> message_includes (Some ''fullData.findIndex is not a function'') ''TIMEOUT''"
    by code_simp
  moreover have
    "\<not> message_includes (Some ''fullData.findIndex is not a function'') ''invalid token''"
    by code_simp
  ultimately show "status (fst (handler fetch req s)) = 500"
    by (simp add: catch_block_status)
next
  fix fullData s'
  assume "load_fullData fetch query limitInt s = (Inl fullData, s') \<and>
          paginate (rank fullData query) pageInt limitInt = []"
  then show "status (fst (handler fetch req s)) = 404"
    by (simp add: handler_loaded [OF g v] respond_empty_page)
qed

theorem failure_statuses_witness:
  "message_includes (Some ''Actor run failed: TIMEOUT'') ''TIMEOUT'' \<and>
   status (fst (handler (\<lambda>q l. ActorCallFails (Some ''Actor run failed: TIMEOUT''))
                 (get_request ''bob'' Absent Absent) initial_state)) = 504 \<and>
   status (fst (handler (\<lambda>q l. ListItemsFails (Some ''invalid token''))
                 (get_request ''bob'' Absent Absent) initial_state)) = 401 \<and>
   status (fst (handler (\<lambda>q l. ActorCallFails None)
                 (get_request ''bob'' Absent Absent) initial_state)) = 500 \<and>
   status (fst (handler (\<lambda>q l. RunWithoutDataset)
                 (get_request ''bob'' Absent Absent) initial_state)) = 502 \<and>
   status (fst (handler (\<lambda>q l. ListItems (Some []))
                 (get_request ''bob'' Absent Absent) initial_state)) = 404 \<and>
   status (fst (handler (\<lambda>q l. ListItems (Some [user ''bob'']))
                 (get_request ''bob'' (Single ''2'') Absent) initial_state)) = 404"
proof -
  have g: "req_method (get_request ''bob'' p Absent) = ''GET''" for p
    by (simp add: get_request_def)
  have v: "validate (get_request ''bob'' Absent Absent) = Inr (Single ''bob'', Finite 1, Finite 5)" by code_simp
  have v2: "validate (get_request ''bob'' (Single ''2'') Absent) = Inr (Single ''bob'', Finite 2, Finite 5)"
    by code_simp
  have u: "cache_get (fullSearchCache initial_state) (toLowerCase ''bob'') = Undefined"
    by code_simp
  have m1: "message_includes (Some ''Actor run failed: TIMEOUT'') ''TIMEOUT''" by code_simp
  have m2: "message_includes (Some ''invalid token'') ''invalid token'' \<and>
            \<not> message_includes (Some ''invalid token'') ''TIMEOUT''" by code_simp
  have m3: "\<not> message_includes None ''invalid token'' \<and> \<not> message_includes None ''TIMEOUT''"
    by (simp add: message_includes_def)
  have l: "load_fullData (\<lambda>q l. ListItems (Some [user ''bob''])) ''bob'' (Finite 5) initial_state =
      (Inl [user ''bob''],
       initial_state\<lparr>fetch_calls := fetch_calls initial_state @ [(''bob'', mul_js MAX_PAGES (Finite 5))],
                      fullSearchCache :=
                        (fullSearchCache initial_state)(toLowerCase ''bob'' \<mapsto> [user ''bob''])\<rparr>)"
    by (simp add: load_miss [OF u] Let_def)
  have e: "paginate (rank [user ''bob''] ''bob'') (Finite 2) (Finite 5) = []" by code_simp
  note t = failure_statuses [OF g v, of initial_state]
  note t2 = failure_statuses [OF g v2, of initial_state]
  from t [of "\<lambda>q l. ActorCallFails (Some ''Actor run failed: TIMEOUT'')"] u m1
  have "status (fst (handler (\<lambda>q l. ActorCallFails (Some ''Actor run failed: TIMEOUT''))
                 (get_request ''bob'' Absent Absent) initial_state)) = 504" by blast
  moreover from t [of "\<lambda>q l. ListItemsFails (Some ''invalid token'')"] u m2
  have "status (fst (handler (\<lambda>q l. ListItemsFails (Some ''invalid token''))
                 (get_request ''bob'' Absent Absent) initial_state)) = 401" by blast
  moreover from t [of "\<lambda>q l. ActorCallFails None"] u m3
  have "status (fst (handler (\<lambda>q l. ActorCallFails None)
                 (get_request ''bob'' Absent Absent) initial_state)) = 500" by blast
  moreover from t [of "\<lambda>q l. RunWithoutDataset"] u
  have "status (fst (handler (\<lambda>q l. RunWithoutDataset)
                 (get_request ''bob'' Absent Absent) initial_state)) = 502" by blast
  moreover from t [of "\<lambda>q l. ListItems (Some [])"] u
  have "status (fst (handler (\<lambda>q l. ListItems (Some []))
                 (get_request ''bob'' Absent Absent) initial_state)) = 404" by blast
  moreover from t2 [of "\<lambda>q l. ListItems (Some [user ''bob''])"] l e
  have "status (fst (handler (\<lambda>q l. ListItems (Some [user ''bob'']))
                 (get_request ''bob'' (Single ''2'') Absent) initial_state)) = 404" by blast
  ultimately show ?thesis using m1 by blast
qed

text \<open>
  The claim as first stated has 401 for every message that contains \<^verbatim>\<open>invalid token\<close>. The
  handler tests for \<^verbatim>\<open>TIMEOUT\<close> first: a message with both gives 504.
\<close>

theorem invalid_token_with_timeout_gives_504:
  "message_includes (Some ''TIMEOUT: invalid token'') ''invalid token'' \<and>
   status (fst (handler (\<lambda>q l. ActorCallFails (Some ''TIMEOUT: invalid token''))
                 (get_request ''bob'' Absent Absent) initial_state)) = 504"
  by code_simp

subsection \<open>The successful response\<close>

text \<open>
  Claim C7: a response with status 200 comes from a request that passed validation, and
  its body holds: the profiles of the records of the requested slice of the ranked
  dataset, in order; as total the length of the whole dataset stored in the cache under
  the lowercased query; as current page the parsed page parameter; and 7 as the number of
  pages. The profile of a record has the record's id, or its username when the id is
  undefined or empty; its username; its bio, or the empty string; and as picture the first
  of the high-definition URL and the standard URL that is defined and not empty, or the
  placeholder path. The projection is a total function of the record.
\<close>

theorem success_body:
  assumes "status (fst (handler fetch req s)) = 200"
  shows "\<exists>query pageInt limitInt fullData.
           validate req = Inr (Single query, pageInt, limitInt) \<and>
           parseInt (page_param req) = pageInt \<and>
           fullSearchCache (snd (handler fetch req s)) (toLowerCase query) = Some fullData \<and>
           body (fst (handler fetch req s)) =
             PageBody
               \<lparr>profiles = map toProfile (paginate (rank fullData query) pageInt limitInt),
                total_n = length fullData,
                currentPage = pageInt,
                totalPages = Finite 7\<rparr> \<and>
           (\<forall>item.
              p_id (toProfile item) =
                (case item_id item of
                   None \<Rightarrow> username item
                 | Some i \<Rightarrow> if i = [] then username item else Some i) \<and>
              p_username (toProfile item) = username item \<and>
              p_bio (toProfile item) = (case bio item of None \<Rightarrow> [] | Some b \<Rightarrow> b) \<and>
              profilePicture (toProfile item) =
                (case List.find truthy [profilePicUrlHD item, profilePicUrl item] of
                   Some (Some url) \<Rightarrow> url
                 | _ \<Rightarrow> ''/no-profile-pic-img.png''))"
proof -
  from handler_200 [OF assms] obtain query pageInt limitInt fullData s' where
    v: "validate req = Inr (Single query, pageInt, limitInt)"
    and l: "load_fullData fetch query limitInt s = (Inl fullData, s')"
    and h: "handler fetch req s = (respond fullData query pageInt limitInt, s')"
    by blast
  from assms h have ne: "paginate (rank fullData query) pageInt limitInt \<noteq> []"
    by (auto simp: respond_def Let_def error_response_def split: if_splits)
  from v have p: "parseInt (page_param req) = pageInt"
    by (simp add: validate_Inr parse_page_limit_Inr)
  have b: "body (fst (handler fetch req s)) =
             PageBody
               \<lparr>profiles = map toProfile (paginate (rank fullData query) pageInt limitInt),
                total_n = length fullData, currentPage = pageInt, totalPages = Finite 7\<rparr>"
    using ne by (simp add: h respond_def Let_def MAX_PAGES_def)
  have c: "fullSearchCache (snd (handler fetch req s)) (toLowerCase query) = Some fullData"
    using load_Inl_cached [OF l] by (simp add: h)
  have t: "p_id (toProfile item) =
                (case item_id item of
                   None \<Rightarrow> username item
                 | Some i \<Rightarrow> if i = [] then username item else Some i) \<and>
              p_username (toProfile item) = username item \<and>
              p_bio (toProfile item) = (case bio item of None \<Rightarrow> [] | Some b \<Rightarrow> b) \<and>
              profilePicture (toProfile item) =
                (case List.find truthy [profilePicUrlHD item, profilePicUrl item] of
                   Some (Some url) \<Rightarrow> url
                 | _ \<Rightarrow> ''/no-profile-pic-img.png'')" for item
    by (auto simp: toProfile_def or_js_def or_str_def truthy_def split: option.splits)
  from v p c b t show ?thesis by blast
qed

theorem success_body_witness:
  "status (fst (handler (\<lambda>q l. ListItems (Some [user ''alice_w'', user_with_id ''7'' ''alice'']))
                 (get_request ''Alice'' Absent (Single ''1'')) initial_state)) = 200 \<and>
   (\<exists>query pageInt limitInt fullData.
      validate (get_request ''Alice'' Absent (Single ''1'')) = Inr (Single query, pageInt, limitInt) \<and>
      body (fst (handler (\<lambda>q l. ListItems (Some [user ''alice_w'', user_with_id ''7'' ''alice'']))
                   (get_request ''Alice'' Absent (Single ''1'')) initial_state)) =
        PageBody
          \<lparr>profiles = map toProfile (paginate (rank fullData query) pageInt limitInt),
           total_n = length fullData, currentPage = pageInt, totalPages = Finite 7\<rparr>)"
proof -
  have h: "status (fst (handler
                 (\<lambda>q l. ListItems (Some [user ''alice_w'', user_with_id ''7'' ''alice'']))
                 (get_request ''Alice'' Absent (Single ''1'')) initial_state)) = 200"
    by code_simp
  from success_body [OF h] h show ?thesis by blast
qed

subsection \<open>The cache\<close>

text \<open>
  Claim C4: once the cache holds a dataset under a lowercased query, then whatever
  requests follow, with whatever behaviour of the scraper, none of the calls made to the
  scraper is for a query with that lowercase form; the entry stays as it is, and every
  query with that lowercase form, however it is cased, is served from it.
\<close>

theorem cached_query_not_refetched:
  assumes "fullSearchCache s (toLowerCase query) = Some d"
  shows "(\<exists>new. fetch_calls (snd (serve reqs s)) = fetch_calls s @ new \<and>
                (\<forall>c \<in> set new. toLowerCase (fst c) \<noteq> toLowerCase query)) \<and>
         fullSearchCache (snd (serve reqs s)) (toLowerCase query) = Some d \<and>
         (\<forall>fetch q limitInt.
            toLowerCase q = toLowerCase query \<longrightarrow>
            load_fullData fetch q limitInt (snd (serve reqs s)) =
              (Inl d, snd (serve reqs s)))"
proof -
  from serve_cached [OF assms, of reqs]
  have c: "fullSearchCache (snd (serve reqs s)) (toLowerCase query) = Some d"
    and n: "\<exists>new. fetch_calls (snd (serve reqs s)) = fetch_calls s @ new \<and>
                (\<forall>c \<in> set new. toLowerCase (fst c) \<noteq> toLowerCase query)"
    by blast+
  have "load_fullData fetch q limitInt (snd (serve reqs s)) = (Inl d, snd (serve reqs s))"
    if "toLowerCase q = toLowerCase query" for fetch q limitInt
    using c that by (simp add: load_fullData_def cache_get_def)
  with c n show ?thesis by blast
qed

theorem cached_query_not_refetched_witness:
  "(let fetch = (\<lambda>q l. ListItems (Some [user ''alice'', user ''alice_w'']));
        s = snd (handler fetch (get_request ''Alice'' Absent Absent) initial_state);
        later = [(fetch, get_request ''ALICE'' (Single ''2'') (Single ''1'')),
                 (fetch, get_request ''alice'' Absent (Single ''10''))]
    in fullSearchCache s (toLowerCase ''ALICE'') = Some [user ''alice'', user ''alice_w''] \<and>
       (\<exists>new. fetch_calls (snd (serve later s)) = fetch_calls s @ new \<and>
              list_all (\<lambda>c. toLowerCase (fst c) \<noteq> toLowerCase ''ALICE'') new) \<and>
       fullSearchCache (snd (serve later s)) (toLowerCase ''ALICE'') =
         Some [user ''alice'', user ''alice_w''])"
proof -
  let ?fetch = "\<lambda>q l. ListItems (Some [user ''alice'', user ''alice_w''])"
  let ?s = "snd (handler ?fetch (get_request ''Alice'' Absent Absent) initial_state)"
  have lc: "toLowerCase ''ALICE'' = toLowerCase ''Alice''" by code_simp
  have g: "req_method (get_request ''Alice'' Absent Absent) = ''GET''"
    by (simp add: get_request_def)
  have v: "validate (get_request ''Alice'' Absent Absent) = Inr (Single ''Alice'', Finite 1, Finite 5)" by code_simp
  have u: "cache_get (fullSearchCache initial_state) (toLowerCase ''Alice'') = Undefined"
    by code_simp
  obtain s' where l: "load_fullData ?fetch ''Alice'' (Finite 5) initial_state =
      (Inl [user ''alice'', user ''alice_w''], s')"
    by (simp add: load_miss [OF u] Let_def)
  from handler_loaded [OF g v l] load_Inl_cached [OF l]
  have c: "fullSearchCache ?s (toLowerCase ''ALICE'') = Some [user ''alice'', user ''alice_w'']"
    by (simp add: lc)
  from cached_query_not_refetched [OF c] c show ?thesis
    unfolding Let_def list_all_iff by blast
qed




end
